theory Spec2Isabelle
  imports Main "HOL-Library.Sublist"
begin

section \<open>The to-do list of \<^verbatim>\<open>src/index.tsx\<close>\<close>

text \<open>
  The to-do feature keeps two module-level variables, \<^verbatim>\<open>tasks\<close> and \<^verbatim>\<open>editingId\<close>,
  and one item of \<^verbatim>\<open>localStorage\<close> under the key \<^verbatim>\<open>'tasks'\<close>. Every function of the
  feature is embedded as a function on a record holding the three, in the order of the source.

  Strings are \<^typ>\<open>string\<close>: a character stands for one UTF-16 code unit below 256, so the
  model covers stored and typed text in that range. Numbers are \<^typ>\<open>int\<close>: a task id is
  the integer \<^verbatim>\<open>Date.now()\<close> returned, which is passed to the model as an argument.
\<close>

subsection \<open>Platform: \<^verbatim>\<open>String.prototype.trim\<close>\<close>

text \<open>
  \<^verbatim>\<open>trim\<close> removes white space and line terminators from both ends. Below 256 these are
  the code units 9 to 13, 32 and 160.
\<close>

definition is_space :: "char \<Rightarrow> bool" where
  "is_space c = (of_char c \<in> {9, 10, 11, 12, 13, 32, 160 :: nat})"

definition trim :: "string \<Rightarrow> string" where
  "trim s = rev (dropWhile is_space (rev (dropWhile is_space s)))"

subsection \<open>Platform: decimal numerals\<close>

definition is_digit :: "char \<Rightarrow> bool" where
  "is_digit c = (48 \<le> (of_char c :: nat) \<and> (of_char c :: nat) \<le> 57)"

definition digit_char :: "nat \<Rightarrow> char" where
  "digit_char d = ''0123456789'' ! d"

definition digit_val :: "char \<Rightarrow> nat" where
  "digit_val c = of_char c - 48"

fun show_nat :: "nat \<Rightarrow> string" where
  "show_nat n = (if n < 10 then [digit_char n] else show_nat (n div 10) @ [digit_char (n mod 10)])"

declare show_nat.simps [simp del]

definition show_int :: "int \<Rightarrow> string" where
  "show_int i = (if i < 0 then CHR ''-'' # show_nat (nat (- i)) else show_nat (nat i))"

definition nat_of_digits :: "string \<Rightarrow> nat" where
  "nat_of_digits ds = foldl (\<lambda>acc c. 10 * acc + digit_val c) 0 ds"

subsection \<open>The data model\<close>

text \<open>\<^verbatim>\<open>interface Task { id: number; text: string; completed: boolean }\<close>\<close>

record task =
  taskId :: int
  taskText :: string
  completed :: bool

subsection \<open>Platform: \<^verbatim>\<open>JSON.stringify\<close> on a \<^verbatim>\<open>Task[]\<close>\<close>

text \<open>
  A string is written between double quotes; the quote, the backslash and the code units
  below 32 are escaped, the latter as \<^verbatim>\<open>\b \t \n \f \r\<close> or as \<^verbatim>\<open>\u00xx\<close> with lowercase
  hexadecimal digits.
\<close>

definition dquote :: char where
  "dquote = CHR 0x22"

definition backslash :: char where
  "backslash = CHR 0x5C"

definition hex_char :: "nat \<Rightarrow> char" where
  "hex_char d = ''0123456789abcdef'' ! d"

definition escape_char :: "char \<Rightarrow> string" where
  "escape_char c =
     (if c = dquote then [backslash, dquote]
      else if c = backslash then [backslash, backslash]
      else if c = CHR 0x08 then [backslash, CHR ''b'']
      else if c = CHR 0x09 then [backslash, CHR ''t'']
      else if c = CHR 0x0A then [backslash, CHR ''n'']
      else if c = CHR 0x0C then [backslash, CHR ''f'']
      else if c = CHR 0x0D then [backslash, CHR ''r'']
      else if (of_char c :: nat) < 32
        then [backslash, CHR ''u'', CHR ''0'', CHR ''0'',
              hex_char (of_char c div 16), hex_char (of_char c mod 16)]
      else [c])"

definition quote :: "string \<Rightarrow> string" where
  "quote s = dquote # concat (map escape_char s) @ [dquote]"

text \<open>
  An object is written with its own properties in creation order: \<^verbatim>\<open>id\<close>, \<^verbatim>\<open>text\<close>,
  \<^verbatim>\<open>completed\<close> for a task built by \<^verbatim>\<open>addTask\<close> (and kept by the spread copies of
  \<^verbatim>\<open>toggleTask\<close> and \<^verbatim>\<open>updateTaskText\<close>). An integer is written in decimal.
\<close>

definition stringify_task :: "task \<Rightarrow> string" where
  "stringify_task t =
     ''{'' @ quote ''id'' @ '':'' @ show_int (taskId t) @
     '','' @ quote ''text'' @ '':'' @ quote (taskText t) @
     '','' @ quote ''completed'' @ '':'' @ (if completed t then ''true'' else ''false'') @
     ''}''"

fun join_commas :: "string list \<Rightarrow> string" where
  "join_commas [] = []"
| "join_commas [x] = x"
| "join_commas (x # y # ys) = x @ '','' @ join_commas (y # ys)"

definition JSON_stringify :: "task list \<Rightarrow> string" where
  "JSON_stringify ts = ''['' @ join_commas (map stringify_task ts) @ '']''"

subsection \<open>Platform: \<^verbatim>\<open>JSON.parse\<close>\<close>

text \<open>
  A parsed value. A string is kept as its UTF-16 code units, since an escape \<^verbatim>\<open>\uXXXX\<close>
  can name a code unit that \<^typ>\<open>char\<close> does not have. A number written as an integer
  of magnitude at most \<^verbatim>\<open>Number.MAX_SAFE_INTEGER\<close> is kept as that integer; any other
  number (a fraction, an exponent, a larger magnitude) denotes a double, which is kept as
  the text that was read.
\<close>

datatype json =
    JNull
  | JBool bool
  | JInt int
  | JDouble string
  | JStr "nat list"
  | JArr "json list"
  | JObj "(nat list \<times> json) list"

datatype error = SyntaxError

datatype token =
    TOpenArr | TCloseArr | TOpenObj | TCloseObj | TComma | TColon | TScalar json

definition is_json_ws :: "char \<Rightarrow> bool" where
  "is_json_ws c = (of_char c \<in> {9, 10, 13, 32 :: nat})"

definition is_hex :: "char \<Rightarrow> bool" where
  "is_hex c = (is_digit c \<or> (65 \<le> (of_char c :: nat) \<and> (of_char c :: nat) \<le> 70)
                \<or> (97 \<le> (of_char c :: nat) \<and> (of_char c :: nat) \<le> 102))"

definition hex_val :: "char \<Rightarrow> nat" where
  "hex_val c = (if is_digit c then of_char c - 48
                else if (of_char c :: nat) \<le> 70 then of_char c - 55 else of_char c - 87)"

definition unescape :: "char \<Rightarrow> nat option" where
  "unescape e =
     (if e = dquote then Some 34
      else if e = backslash then Some 92
      else if e = CHR ''/'' then Some 47
      else if e = CHR ''b'' then Some 8
      else if e = CHR ''f'' then Some 12
      else if e = CHR ''n'' then Some 10
      else if e = CHR ''r'' then Some 13
      else if e = CHR ''t'' then Some 9
      else None)"

definition prepend :: "nat \<Rightarrow> (nat list \<times> string) option \<Rightarrow> (nat list \<times> string) option" where
  "prepend u r = (case r of None \<Rightarrow> None | Some (us, rest) \<Rightarrow> Some (u # us, rest))"

text \<open>
  The body of a string, read after its opening quote: the code units up to the closing
  quote, and the text after it. A code unit below 32 may not occur unescaped.
\<close>

fun scan_string :: "string \<Rightarrow> (nat list \<times> string) option" where
  "scan_string [] = None"
| "scan_string (c # cs) =
     (if c = dquote then Some ([], cs)
      else if c = backslash then
        (case cs of
           [] \<Rightarrow> None
         | e # es \<Rightarrow>
             if e = CHR ''u'' then
               (case es of
                  h1 # h2 # h3 # h4 # r \<Rightarrow>
                    if is_hex h1 \<and> is_hex h2 \<and> is_hex h3 \<and> is_hex h4
                    then prepend (4096 * hex_val h1 + 256 * hex_val h2 + 16 * hex_val h3 + hex_val h4)
                           (scan_string r)
                    else None
                | _ \<Rightarrow> None)
             else (case unescape e of
                     None \<Rightarrow> None
                   | Some u \<Rightarrow> prepend u (scan_string es)))
      else if (of_char c :: nat) < 32 then None
      else prepend (of_char c) (scan_string cs))"

text \<open>
  The grammar of a number: an optional minus, an integer part without a leading zero,
  an optional fraction, an optional exponent.
\<close>

definition valid_exp :: "string \<Rightarrow> bool" where
  "valid_exp r =
     (case r of
        [] \<Rightarrow> False
      | e # x \<Rightarrow>
          (e = CHR ''e'' \<or> e = CHR ''E'') \<and>
          (let d = (case x of [] \<Rightarrow> [] | s # y \<Rightarrow> if s = CHR ''+'' \<or> s = CHR ''-'' then y else x)
           in d \<noteq> [] \<and> list_all is_digit d))"

definition valid_frac_exp :: "string \<Rightarrow> bool" where
  "valid_frac_exp r =
     (case r of
        [] \<Rightarrow> False
      | p # f \<Rightarrow>
          if p = CHR ''.'' then
            (let fd = takeWhile is_digit f; r2 = dropWhile is_digit f
             in fd \<noteq> [] \<and> (r2 = [] \<or> valid_exp r2))
          else valid_exp r)"

definition max_safe_integer :: int where
  "max_safe_integer = 9007199254740991"

definition number_of :: "string \<Rightarrow> json option" where
  "number_of s =
     (let neg = (s \<noteq> [] \<and> hd s = CHR ''-'');
          body = (if neg then tl s else s);
          ip = takeWhile is_digit body;
          r = dropWhile is_digit body
      in if ip = [] \<or> (1 < length ip \<and> hd ip = CHR ''0'') then None
         else if r = [] then
           (let n = int (nat_of_digits ip)
            in if n \<le> max_safe_integer then Some (JInt (if neg then - n else n))
               else Some (JDouble s))
         else if valid_frac_exp r then Some (JDouble s)
         else None)"

definition is_numchar :: "char \<Rightarrow> bool" where
  "is_numchar c = (is_digit c \<or> c \<in> {CHR ''.'', CHR ''e'', CHR ''E'', CHR ''+'', CHR ''-''})"

definition is_lower :: "char \<Rightarrow> bool" where
  "is_lower c = (97 \<le> (of_char c :: nat) \<and> (of_char c :: nat) \<le> 122)"

definition literal_of :: "string \<Rightarrow> json option" where
  "literal_of w =
     (if w = ''true'' then Some (JBool True)
      else if w = ''false'' then Some (JBool False)
      else if w = ''null'' then Some JNull
      else None)"

definition emit :: "token \<Rightarrow> token list option \<Rightarrow> token list option" where
  "emit t r = (case r of None \<Rightarrow> None | Some ts \<Rightarrow> Some (t # ts))"

lemma scan_string_shorter:
  "scan_string cs = Some (us, rest) \<Longrightarrow> length rest < length cs"
proof (induction cs arbitrary: us rest rule: scan_string.induct)
  case 1
  then show ?case by simp
next
  case (2 c cs)
  then show ?case
    by (auto simp: prepend_def split: if_splits list.splits option.splits) fastforce+
qed

text \<open>
  The tokens of a text; \<open>None\<close> when some character starts no token. A run of number
  characters, or of lowercase letters, is one token: nothing of either kind can follow a
  number or a literal in a valid text.
\<close>

function json_tokens :: "string \<Rightarrow> token list option" where
  "json_tokens [] = Some []"
| "json_tokens (c # cs) =
     (if is_json_ws c then json_tokens cs
      else if c = CHR ''['' then emit TOpenArr (json_tokens cs)
      else if c = CHR '']'' then emit TCloseArr (json_tokens cs)
      else if c = CHR ''{'' then emit TOpenObj (json_tokens cs)
      else if c = CHR ''}'' then emit TCloseObj (json_tokens cs)
      else if c = CHR '','' then emit TComma (json_tokens cs)
      else if c = CHR '':'' then emit TColon (json_tokens cs)
      else if c = dquote then
        (case scan_string cs of
           None \<Rightarrow> None
         | Some (us, rest) \<Rightarrow> emit (TScalar (JStr us)) (json_tokens rest))
      else if c = CHR ''-'' \<or> is_digit c then
        (case number_of (c # takeWhile is_numchar cs) of
           None \<Rightarrow> None
         | Some v \<Rightarrow> emit (TScalar v) (json_tokens (dropWhile is_numchar cs)))
      else if is_lower c then
        (case literal_of (c # takeWhile is_lower cs) of
           None \<Rightarrow> None
         | Some v \<Rightarrow> emit (TScalar v) (json_tokens (dropWhile is_lower cs)))
      else None)"
  by pat_completeness auto
termination
proof (relation "measure length")
  show "wf (measure length)" by simp
qed (auto simp: length_dropWhile_le less_Suc_eq_le dest: scan_string_shorter less_imp_le)

text \<open>
  The parser reads the tokens from left to right. Its stack holds the arrays and objects
  that are still open; what may come next is the \<open>expect\<close> component.
\<close>

datatype frame =
    FArr "json list"
  | FObj "(nat list \<times> json) list"
  | FKey "(nat list \<times> json) list" "nat list"

datatype expect =
    Value | ValueOrClose | Key | KeyOrClose | Colon | CommaOrClose | End json

text \<open>A finished value goes to the innermost open array or object, or is the result.\<close>

fun deliver :: "json \<Rightarrow> frame list \<Rightarrow> (expect \<times> frame list) option" where
  "deliver v [] = Some (End v, [])"
| "deliver v (FArr es # st) = Some (CommaOrClose, FArr (es @ [v]) # st)"
| "deliver v (FKey ms k # st) = Some (CommaOrClose, FObj (ms @ [(k, v)]) # st)"
| "deliver v (FObj ms # st) = None"

fun start_value :: "token \<Rightarrow> frame list \<Rightarrow> (expect \<times> frame list) option" where
  "start_value (TScalar v) st = deliver v st"
| "start_value TOpenArr st = Some (ValueOrClose, FArr [] # st)"
| "start_value TOpenObj st = Some (KeyOrClose, FObj [] # st)"
| "start_value _ st = None"

fun start_key :: "token \<Rightarrow> frame list \<Rightarrow> (expect \<times> frame list) option" where
  "start_key (TScalar (JStr k)) (FObj ms # st) = Some (Colon, FKey ms k # st)"
| "start_key _ st = None"

fun close_frame :: "token \<Rightarrow> frame list \<Rightarrow> (expect \<times> frame list) option" where
  "close_frame TCloseArr (FArr es # st) = deliver (JArr es) st"
| "close_frame TCloseObj (FObj ms # st) = deliver (JObj ms) st"
| "close_frame _ st = None"

fun step :: "expect \<Rightarrow> frame list \<Rightarrow> token \<Rightarrow> (expect \<times> frame list) option" where
  "step Value st t = start_value t st"
| "step ValueOrClose st t = (if t = TCloseArr then close_frame t st else start_value t st)"
| "step Key st t = start_key t st"
| "step KeyOrClose st t = (if t = TCloseObj then close_frame t st else start_key t st)"
| "step Colon st t = (if t = TColon then Some (Value, st) else None)"
| "step CommaOrClose st t =
     (if t = TComma then
        (case st of
           FArr es # st' \<Rightarrow> Some (Value, st)
         | FObj ms # st' \<Rightarrow> Some (Key, st)
         | _ \<Rightarrow> None)
      else close_frame t st)"
| "step (End v) st t = None"

fun run :: "expect \<Rightarrow> frame list \<Rightarrow> token list \<Rightarrow> json option" where
  "run e st [] = (case e of End v \<Rightarrow> Some v | _ \<Rightarrow> None)"
| "run e st (t # ts) =
     (case step e st t of
        None \<Rightarrow> None
      | Some (e', st') \<Rightarrow> run e' st' ts)"

text \<open>\<^verbatim>\<open>JSON.parse(text)\<close>: the value, or the \<^verbatim>\<open>SyntaxError\<close> it throws.\<close>

definition JSON_parse :: "string \<Rightarrow> error + json" where
  "JSON_parse s =
     (case json_tokens s of
        None \<Rightarrow> Inl SyntaxError
      | Some ts \<Rightarrow>
          (case run Value [] ts of
             None \<Rightarrow> Inl SyntaxError
           | Some v \<Rightarrow> Inr v))"

text \<open>
  A parsed value that is an array of objects with exactly the properties \<^verbatim>\<open>id\<close> (an
  integer), \<^verbatim>\<open>text\<close> (a string of code units below 256) and \<^verbatim>\<open>completed\<close> (a boolean),
  in this order, is a task list of the model. Any other value is not read further.
\<close>

definition units_of :: "string \<Rightarrow> nat list" where
  "units_of s = map of_char s"

fun as_task :: "json \<Rightarrow> task option" where
  "as_task (JObj [(k1, JInt n), (k2, JStr us), (k3, JBool b)]) =
     (if k1 = units_of ''id'' \<and> k2 = units_of ''text'' \<and> k3 = units_of ''completed''
         \<and> list_all (\<lambda>u. u < 256) us
      then Some \<lparr>taskId = n, taskText = map char_of us, completed = b\<rparr>
      else None)"
| "as_task _ = None"

fun all_some :: "'a option list \<Rightarrow> 'a list option" where
  "all_some [] = Some []"
| "all_some (x # xs) =
     (case x of
        None \<Rightarrow> None
      | Some y \<Rightarrow> (case all_some xs of None \<Rightarrow> None | Some ys \<Rightarrow> Some (y # ys)))"

fun as_tasks :: "json \<Rightarrow> task list option" where
  "as_tasks (JArr vs) = all_some (map as_task vs)"
| "as_tasks _ = None"

subsection \<open>The state\<close>

text \<open>
  \<^verbatim>\<open>let tasks: Task[] = []; let editingId: number | null = null;\<close> together with the
  item of \<^verbatim>\<open>localStorage\<close> under \<^verbatim>\<open>'tasks'\<close> (\<open>None\<close> when there is none), the
  \<^verbatim>\<open>disabled\<close> flag of the add button, and the texts held by the callbacks that the
  submit handler has scheduled and that have not run yet.
\<close>

record state =
  tasks :: "task list"
  editingId :: "int option"
  storage :: "string option"
  addDisabled :: bool
  pendingAdds :: "string list"

text \<open>The state when the page has loaded, over whatever the store holds.\<close>

definition initial :: "string option \<Rightarrow> state" where
  "initial stored =
     \<lparr>tasks = [], editingId = None, storage = stored, addDisabled = False, pendingAdds = []\<rparr>"

subsection \<open>Persistence\<close>

text \<open>\<^verbatim>\<open>localStorage.setItem('tasks', JSON.stringify(tasks))\<close>, on a store with room.\<close>

definition saveTasks :: "state \<Rightarrow> state" where
  "saveTasks st = st\<lparr>storage := Some (JSON_stringify (tasks st))\<rparr>"

text \<open>
  \<^verbatim>\<open>loadTasks\<close> either throws what \<^verbatim>\<open>JSON.parse\<close> throws, or returns. When it returns,
  \<^verbatim>\<open>tasks\<close> is as before, or a parsed task list, or a parsed value of some other shape
  (the assignment checks nothing).
\<close>

datatype load_result = Raised error | Loaded state | LoadedRaw json

definition loadTasks :: "state \<Rightarrow> load_result" where
  "loadTasks st =
     (case storage st of
        None \<Rightarrow> Loaded st
      | Some storedTasks \<Rightarrow>
          if storedTasks \<noteq> [] then
            (case JSON_parse storedTasks of
               Inl e \<Rightarrow> Raised e
             | Inr v \<Rightarrow>
                 (case as_tasks v of
                    Some ts \<Rightarrow> Loaded (st\<lparr>tasks := ts\<rparr>)
                  | None \<Rightarrow> LoadedRaw v))
          else Loaded st)"

subsection \<open>The operations\<close>

definition addTask :: "int \<Rightarrow> string \<Rightarrow> state \<Rightarrow> state" where
  "addTask now txt st =
     (let newTask = \<lparr>taskId = now, taskText = txt, completed = False\<rparr>
      in saveTasks (st\<lparr>tasks := tasks st @ [newTask]\<rparr>))"

definition toggleTask :: "int \<Rightarrow> state \<Rightarrow> state" where
  "toggleTask i st =
     saveTasks (st\<lparr>tasks :=
       map (\<lambda>t. if taskId t = i then t\<lparr>completed := \<not> completed t\<rparr> else t) (tasks st)\<rparr>)"

definition deleteTask :: "int \<Rightarrow> state \<Rightarrow> state" where
  "deleteTask i st = saveTasks (st\<lparr>tasks := filter (\<lambda>t. taskId t \<noteq> i) (tasks st)\<rparr>)"

definition setEditing :: "int \<Rightarrow> state \<Rightarrow> state" where
  "setEditing i st = st\<lparr>editingId := Some i\<rparr>"

definition cancelEditing :: "state \<Rightarrow> state" where
  "cancelEditing st = st\<lparr>editingId := None\<rparr>"

definition updateTaskText :: "int \<Rightarrow> string \<Rightarrow> state \<Rightarrow> state" where
  "updateTaskText i newText st =
     saveTasks (st\<lparr>tasks :=
                    map (\<lambda>t. if taskId t = i then t\<lparr>taskText := newText\<rparr> else t) (tasks st),
                  editingId := None\<rparr>)"

text \<open>
  \<^verbatim>\<open>handleSave\<close> of the row of task \<open>i\<close> (and the click handler of its Save button, which
  has the same body), with \<open>v\<close> the value of the edit field.
\<close>

definition handleSave :: "int \<Rightarrow> string \<Rightarrow> state \<Rightarrow> state" where
  "handleSave i v st =
     (let newText = trim v
      in if newText \<noteq> [] then updateTaskText i newText st else cancelEditing st)"

text \<open>
  The submit handler of the form, with \<open>v\<close> the value of the input field: it schedules
  the callback that adds the task 300 ms later, and disables the button until then.
\<close>

definition submitHandler :: "string \<Rightarrow> state \<Rightarrow> state" where
  "submitHandler v st =
     (let txt = trim v
      in if txt \<noteq> [] \<and> \<not> addDisabled st
         then st\<lparr>addDisabled := True, pendingAdds := pendingAdds st @ [txt]\<rparr>
         else st)"

text \<open>The oldest scheduled callback runs, with \<open>now\<close> the value of \<^verbatim>\<open>Date.now()\<close>.\<close>

definition addTimeout :: "int \<Rightarrow> state \<Rightarrow> state" where
  "addTimeout now st =
     (case pendingAdds st of
        [] \<Rightarrow> st
      | txt # rest \<Rightarrow> (addTask now txt st)\<lparr>addDisabled := False, pendingAdds := rest\<rparr>)"

subsection \<open>The rendered list and its controls\<close>

text \<open>
  \<^verbatim>\<open>renderTasks\<close> empties the list element and builds one row per task, in list order.
  Every row has the checkbox. The row whose id is \<^verbatim>\<open>editingId\<close> has the edit field and the
  Save and Cancel buttons; any other row has the text span and the Edit and Delete buttons.
  Every operation ends with \<^verbatim>\<open>renderTasks()\<close>, so the rows on the page are those of the
  current state. The page is taken to have its list element; without it \<^verbatim>\<open>renderTasks\<close>
  returns at once and no row exists.
\<close>

datatype control =
  Checkbox | EditInput | SaveButton | CancelButton | TextSpan | EditButton | DeleteButton

record row =
  rowId :: int
  rowCompleted :: bool
  rowEditing :: bool
  rowText :: string
  controls :: "control list"

definition renderTasks :: "state \<Rightarrow> row list" where
  "renderTasks st =
     map (\<lambda>t. \<lparr>rowId = taskId t,
               rowCompleted = completed t,
               rowEditing = (editingId st = Some (taskId t)),
               rowText = taskText t,
               controls = Checkbox #
                 (if editingId st = Some (taskId t)
                  then [EditInput, SaveButton, CancelButton]
                  else [TextSpan, EditButton, DeleteButton])\<rparr>)
         (tasks st)"

text \<open>
  What can happen to the page: the form is submitted with \<open>v\<close> in its field, a scheduled
  add callback runs at clock reading \<open>now\<close>, or a control of a row is used.
\<close>

datatype event =
    Submit string
  | Timeout int
  | Toggle int
  | Delete int
  | BeginEdit int
  | SaveEdit int string
  | CancelEdit

fun fire :: "event \<Rightarrow> state \<Rightarrow> state" where
  "fire (Submit v) st = submitHandler v st"
| "fire (Timeout now) st = addTimeout now st"
| "fire (Toggle i) st = toggleTask i st"
| "fire (Delete i) st = deleteTask i st"
| "fire (BeginEdit i) st = setEditing i st"
| "fire (SaveEdit i v) st = handleSave i v st"
| "fire CancelEdit st = cancelEditing st"

definition has_control :: "state \<Rightarrow> int \<Rightarrow> control \<Rightarrow> bool" where
  "has_control st i c = list_ex (\<lambda>r. rowId r = i \<and> c \<in> set (controls r)) (renderTasks st)"

text \<open>The events the page offers in a state: the handlers that \<^verbatim>\<open>renderTasks\<close> wired.\<close>

fun offered :: "state \<Rightarrow> event \<Rightarrow> bool" where
  "offered st (Submit v) = True"
| "offered st (Timeout now) = (pendingAdds st \<noteq> [])"
| "offered st (Toggle i) = has_control st i Checkbox"
| "offered st (Delete i) = has_control st i DeleteButton"
| "offered st (BeginEdit i) = (has_control st i TextSpan \<or> has_control st i EditButton)"
| "offered st (SaveEdit i v) = (has_control st i EditInput \<or> has_control st i SaveButton)"
| "offered st CancelEdit = list_ex (\<lambda>r. CancelButton \<in> set (controls r)) (renderTasks st)"

fun run_events :: "event list \<Rightarrow> state \<Rightarrow> state" where
  "run_events [] st = st"
| "run_events (e # es) st = run_events es (fire e st)"

fun all_offered :: "event list \<Rightarrow> state \<Rightarrow> bool" where
  "all_offered [] st = True"
| "all_offered (e # es) st = (offered st e \<and> all_offered es (fire e st))"

text \<open>The Editing Cursor is unset or is the id of a task of the list.\<close>

definition cursor_ok :: "state \<Rightarrow> bool" where
  "cursor_ok st = (case editingId st of None \<Rightarrow> True | Some i \<Rightarrow> i \<in> taskId ` set (tasks st))"

definition ids :: "state \<Rightarrow> int list" where
  "ids st = map taskId (tasks st)"

subsection \<open>What \<^verbatim>\<open>JSON.stringify\<close> writes, as tokens and as a value\<close>

text \<open>
  The value and the tokens that the text written for a task denotes, and the lists whose
  ids \<^verbatim>\<open>JSON.parse\<close> reads back exactly.
\<close>

definition task_json :: "task \<Rightarrow> json" where
  "task_json t =
     JObj [(units_of ''id'', JInt (taskId t)),
           (units_of ''text'', JStr (units_of (taskText t))),
           (units_of ''completed'', JBool (completed t))]"

definition task_tokens :: "task \<Rightarrow> token list" where
  "task_tokens t =
     [TOpenObj, TScalar (JStr (units_of ''id'')), TColon, TScalar (JInt (taskId t)), TComma,
      TScalar (JStr (units_of ''text'')), TColon, TScalar (JStr (units_of (taskText t))), TComma,
      TScalar (JStr (units_of ''completed'')), TColon, TScalar (JBool (completed t)), TCloseObj]"

fun elems_tokens :: "task list \<Rightarrow> token list" where
  "elems_tokens [] = []"
| "elems_tokens [t] = task_tokens t"
| "elems_tokens (t # u # us) = task_tokens t @ TComma # elems_tokens (u # us)"

definition safe_ids :: "task list \<Rightarrow> bool" where
  "safe_ids ts = list_all (\<lambda>t. \<bar>taskId t\<bar> \<le> max_safe_integer) ts"

subsection \<open>Concrete inputs\<close>

text \<open>A state with three tasks, the second being edited, and a short session.\<close>

definition demo :: state where
  "demo =
     \<lparr>tasks = [\<lparr>taskId = 1, taskText = ''A'', completed = False\<rparr>,
               \<lparr>taskId = 2, taskText = ''B'', completed = True\<rparr>,
               \<lparr>taskId = 3, taskText = ''C'', completed = False\<rparr>],
      editingId = Some 2, storage = None, addDisabled = False, pendingAdds = []\<rparr>"

definition session :: "event list" where
  "session = [Submit ''A'', Timeout 1, BeginEdit 1, Toggle 1, SaveEdit 1 ''A2'', Delete 1]"

section \<open>Properties\<close>

subsection \<open>Helper facts\<close>

lemma tasks_saveTasks [simp]: "tasks (saveTasks st) = tasks st"
  by (simp add: saveTasks_def)

lemma editingId_saveTasks [simp]: "editingId (saveTasks st) = editingId st"
  by (simp add: saveTasks_def)

lemma trim_blank: "\<forall>c \<in> set v. is_space c \<Longrightarrow> trim v = []"
  by (auto simp: trim_def dest: set_dropWhileD)

lemma has_control_iff:
  "has_control st i c \<longleftrightarrow>
     i \<in> taskId ` set (tasks st) \<and>
     (c = Checkbox \<or>
      (if editingId st = Some i then c \<in> {EditInput, SaveButton, CancelButton}
       else c \<in> {TextSpan, EditButton, DeleteButton}))"
  by (auto simp: has_control_def renderTasks_def list_ex_iff)

lemma filter_absent:
  "i \<notin> taskId ` set xs \<Longrightarrow> filter (\<lambda>t. taskId t \<noteq> i) xs = xs"
  by (induction xs) auto

lemma map_absent:
  "i \<notin> taskId ` set xs \<Longrightarrow> map (\<lambda>t. if taskId t = i then f t else t) xs = xs"
  by (induction xs) auto

lemma filter_unique:
  "i \<notin> taskId ` set pre \<Longrightarrow> i \<notin> taskId ` set post \<Longrightarrow> taskId t = i \<Longrightarrow>
   filter (\<lambda>t. taskId t \<noteq> i) (pre @ t # post) = pre @ post"
  by (simp add: filter_absent)

lemmas eval_simps =
  initial_def submitHandler_def addTimeout_def addTask_def saveTasks_def toggleTask_def
  deleteTask_def setEditing_def cancelEditing_def updateTaskText_def handleSave_def
  trim_def is_space_def has_control_def renderTasks_def cursor_ok_def Let_def

subsection \<open>The Editing Cursor\<close>

lemma fire_keeps_cursor_ok:
  assumes "cursor_ok st" and "offered st e"
  shows "cursor_ok (fire e st)"
proof (cases e)
  case (Submit v)
  with assms show ?thesis
    by (auto simp: submitHandler_def cursor_ok_def Let_def split: option.splits)
next
  case (Timeout now)
  with assms show ?thesis
    by (auto simp: addTimeout_def addTask_def cursor_ok_def split: list.splits option.splits)
next
  case (Toggle i)
  have m: "map taskId (tasks (toggleTask i st)) = map taskId (tasks st)"
    by (simp add: toggleTask_def o_def)
  have "taskId ` set (tasks (toggleTask i st)) = taskId ` set (tasks st)"
    using arg_cong [OF m, of set] by simp
  moreover have "editingId (toggleTask i st) = editingId st"
    by (simp add: toggleTask_def)
  ultimately show ?thesis
    using assms Toggle by (simp add: cursor_ok_def split: option.splits)
next
  case (Delete i)
  with assms have "editingId st \<noteq> Some i"
    by (auto simp: has_control_iff split: if_splits)
  with assms Delete show ?thesis
    by (auto simp: cursor_ok_def deleteTask_def split: option.splits)
next
  case (BeginEdit i)
  with assms show ?thesis
    by (auto simp: cursor_ok_def setEditing_def has_control_iff)
next
  case (SaveEdit i v)
  then show ?thesis
    by (simp add: cursor_ok_def handleSave_def updateTaskText_def cancelEditing_def Let_def
          split: option.splits)
next
  case CancelEdit
  then show ?thesis
    by (simp add: cursor_ok_def cancelEditing_def)
qed

lemma run_keeps_cursor_ok:
  "cursor_ok st \<Longrightarrow> all_offered es st \<Longrightarrow> cursor_ok (run_events es st)"
  by (induction es arbitrary: st) (auto intro: fire_keeps_cursor_ok)

lemma all_offered_take: "all_offered es st \<Longrightarrow> all_offered (take n es) st"
proof (induction es arbitrary: st n)
  case Nil
  then show ?case by simp
next
  case (Cons e es)
  then show ?case by (cases n) auto
qed

lemma session_offered: "all_offered session (initial None)"
  unfolding session_def by (simp add: eval_simps)

text \<open>
  Claim C1, as the code has it. \<^verbatim>\<open>deleteTask\<close> never writes \<^verbatim>\<open>editingId\<close>, and
  \<^verbatim>\<open>setEditing\<close> stores any id. What keeps the cursor on a task of the list is the page:
  the row being edited has no Delete button, and only rows of the list start an edit. So
  from a state whose cursor is unset or in the list, after every prefix of a sequence of
  events that the page offers, the cursor is unset or in the list.
\<close>

theorem cursor_ok_offered:
  "(cursor_ok st \<and> all_offered es st \<longrightarrow> cursor_ok (run_events (take n es) st))
   \<and> editingId (deleteTask i st) = editingId st"
  using run_keeps_cursor_ok [of st "take n es"] all_offered_take [of es st n]
  by (simp add: deleteTask_def)

theorem cursor_ok_offered_witness:
  "cursor_ok (initial None) \<and> all_offered session (initial None)
   \<and> cursor_ok (run_events (take 4 session) (initial None))"
proof -
  have a: "cursor_ok (initial None)" by (simp add: initial_def cursor_ok_def)
  from cursor_ok_offered [of "initial None" session 4 0] a session_offered
  show ?thesis by blast
qed

text \<open>
  Claim C1 as stated fails: add a task, begin editing it, and call \<^verbatim>\<open>deleteTask\<close> on it.
  The task is gone and the cursor still holds its id.
\<close>

theorem cursor_dangles_after_delete:
  "\<not> cursor_ok (run_events [Submit ''A'', Timeout 1, BeginEdit 1, Delete 1] (initial None))
   \<and> editingId (deleteTask 1 (setEditing 1 (addTask 1 ''A'' (initial None)))) = Some 1
   \<and> tasks (deleteTask 1 (setEditing 1 (addTask 1 ''A'' (initial None)))) = []"
  by (simp add: eval_simps)


subsection \<open>Delete\<close>

text \<open>
  Claim C2. \<^verbatim>\<open>deleteTask(id)\<close> keeps, in their order and unchanged, the tasks whose id
  differs from \<open>id\<close> and no other; it leaves the list as it is when no task has that id;
  and when one task has it, the list without that task is the result.
\<close>

theorem deleteTask_removes_matching:
  "subseq (tasks (deleteTask i st)) (tasks st)
   \<and> set (tasks (deleteTask i st)) = {t \<in> set (tasks st). taskId t \<noteq> i}
   \<and> (i \<notin> taskId ` set (tasks st) \<longrightarrow> tasks (deleteTask i st) = tasks st)
   \<and> (\<forall>pre t post. tasks st = pre @ t # post \<and> taskId t = i
          \<and> i \<notin> taskId ` set pre \<and> i \<notin> taskId ` set post
        \<longrightarrow> tasks (deleteTask i st) = pre @ post)"
proof (intro conjI allI impI)
  show "subseq (tasks (deleteTask i st)) (tasks st)"
    by (simp add: deleteTask_def)
  show "set (tasks (deleteTask i st)) = {t \<in> set (tasks st). taskId t \<noteq> i}"
    by (auto simp: deleteTask_def)
  show "tasks (deleteTask i st) = tasks st" if "i \<notin> taskId ` set (tasks st)"
    using that by (simp add: deleteTask_def filter_absent)
  show "tasks (deleteTask i st) = pre @ post"
    if "tasks st = pre @ t # post \<and> taskId t = i \<and> i \<notin> taskId ` set pre \<and> i \<notin> taskId ` set post"
    for pre t post
    using that filter_unique [of i pre post t] by (simp add: deleteTask_def)
qed

theorem deleteTask_removes_matching_witness:
  "tasks (deleteTask 2 demo) =
     [\<lparr>taskId = 1, taskText = ''A'', completed = False\<rparr>,
      \<lparr>taskId = 3, taskText = ''C'', completed = False\<rparr>]
   \<and> 9 \<notin> taskId ` set (tasks demo) \<and> tasks (deleteTask 9 demo) = tasks demo"
proof -
  note unique = deleteTask_removes_matching [of 2 demo, THEN conjunct2, THEN conjunct2,
      THEN conjunct2, rule_format,
      of "[\<lparr>taskId = 1, taskText = ''A'', completed = False\<rparr>]"
         "\<lparr>taskId = 2, taskText = ''B'', completed = True\<rparr>"
         "[\<lparr>taskId = 3, taskText = ''C'', completed = False\<rparr>]"]
  note none = deleteTask_removes_matching [of 9 demo, THEN conjunct2, THEN conjunct2,
      THEN conjunct1, rule_format]
  have absent: "9 \<notin> taskId ` set (tasks demo)"
    by (simp add: demo_def)
  have "tasks (deleteTask 2 demo) = [\<lparr>taskId = 1, taskText = ''A'', completed = False\<rparr>] @
      [\<lparr>taskId = 3, taskText = ''C'', completed = False\<rparr>]"
    by (rule unique) (simp add: demo_def)
  moreover have "tasks (deleteTask 9 demo) = tasks demo"
    by (rule none) (rule absent)
  ultimately show ?thesis
    using absent by simp
qed

subsection \<open>Begin edit\<close>

text \<open>
  Claim C3, as the code has it. \<^verbatim>\<open>setEditing(id)\<close> stores \<open>id\<close> in the cursor whatever
  the list holds, and changes neither the list nor the store. The page calls it from the
  text span and the Edit button of a row, so with the id of a task of the list.
\<close>

theorem setEditing_any_id:
  "editingId (setEditing i st) = Some i
   \<and> tasks (setEditing i st) = tasks st
   \<and> storage (setEditing i st) = storage st
   \<and> (offered st (BeginEdit i) \<longrightarrow> i \<in> taskId ` set (tasks st))"
  by (auto simp: setEditing_def has_control_iff)

theorem setEditing_any_id_witness:
  "offered demo (BeginEdit 3) \<and> 3 \<in> taskId ` set (tasks demo)
   \<and> editingId (setEditing 3 demo) = Some 3"
proof -
  have "offered demo (BeginEdit 3)"
    by (simp add: demo_def has_control_def renderTasks_def)
  with setEditing_any_id [of 3 demo] show ?thesis
    by blast
qed

text \<open>
  Claim C3 as stated fails: on the empty list no task has the id 7, and \<^verbatim>\<open>setEditing(7)\<close>
  sets the cursor to 7.
\<close>

theorem setEditing_absent_id:
  "7 \<notin> taskId ` set (tasks (initial None))
   \<and> editingId (setEditing 7 (initial None)) = Some 7
   \<and> setEditing 7 (initial None) \<noteq> initial None"
  by (simp add: initial_def setEditing_def)

subsection \<open>Add\<close>

text \<open>
  Claim C5. The submit handler trims the field; when nothing is left it does nothing: no
  callback is scheduled, the state is the same, and so is the Task List. The handler has
  no failing branch.
\<close>

theorem blank_submit_noop:
  assumes "\<forall>c \<in> set v. is_space c"
  shows "submitHandler v st = st \<and> run_events [Submit v] st = st
         \<and> tasks (run_events [Submit v] st) = tasks st"
  using trim_blank [OF assms] by (simp add: submitHandler_def)

theorem blank_submit_noop_witness:
  "submitHandler '''' demo = demo \<and> submitHandler ''   '' demo = demo
   \<and> tasks (run_events [Submit ''   ''] demo) = tasks demo"
proof -
  have "\<forall>c \<in> set ''''. is_space c" by simp
  moreover have "\<forall>c \<in> set ''   ''. is_space c" by (simp add: is_space_def)
  ultimately show ?thesis
    using blank_submit_noop [of "''''" demo] blank_submit_noop [of "''   ''" demo] by simp
qed

text \<open>
  Claim C6, as the code has it. \<^verbatim>\<open>addTask\<close> appends a task with \<^verbatim>\<open>completed = false\<close>
  whose id is the clock reading. The ids of the list stay pairwise distinct when they were
  so and the reading is the id of no task of the list.
\<close>

theorem addTask_appends:
  "tasks (addTask now txt st) =
     tasks st @ [\<lparr>taskId = now, taskText = txt, completed = False\<rparr>]
   \<and> (distinct (ids st) \<and> now \<notin> set (ids st) \<longrightarrow> distinct (ids (addTask now txt st)))"
  by (simp add: addTask_def ids_def)

theorem addTask_appends_witness:
  "distinct (ids demo) \<and> 4 \<notin> set (ids demo) \<and> distinct (ids (addTask 4 ''D'' demo))
   \<and> ids (addTask 4 ''D'' demo) = [1, 2, 3, 4]"
proof -
  have h: "distinct (ids demo) \<and> 4 \<notin> set (ids demo)"
    by (simp add: demo_def ids_def)
  moreover have "ids (addTask 4 ''D'' demo) = [1, 2, 3, 4]"
    by (simp add: demo_def ids_def addTask_def)
  ultimately show ?thesis
    using addTask_appends [of 4 "''D''" demo] by blast
qed

text \<open>
  Claim C6 as stated fails: two adds at the same clock reading give two tasks with the
  same id.
\<close>

theorem addTask_same_reading:
  "map taskId (tasks (run_events [Submit ''A'', Timeout 5, Submit ''B'', Timeout 5] (initial None)))
     = [5, 5]
   \<and> \<not> distinct (ids (addTask 5 ''B'' (addTask 5 ''A'' (initial None))))"
  by (simp add: eval_simps ids_def)

subsection \<open>Toggle\<close>

text \<open>
  Claim C8. Two calls of \<^verbatim>\<open>toggleTask(id)\<close> give the list back; one call keeps the
  length and, position by position, the ids and the texts; and it gives the list back
  when no task has the id.
\<close>

theorem toggleTask_twice:
  "tasks (toggleTask i (toggleTask i st)) = tasks st
   \<and> length (tasks (toggleTask i st)) = length (tasks st)
   \<and> map taskId (tasks (toggleTask i st)) = map taskId (tasks st)
   \<and> map taskText (tasks (toggleTask i st)) = map taskText (tasks st)
   \<and> (i \<notin> taskId ` set (tasks st) \<longrightarrow> tasks (toggleTask i st) = tasks st)"
proof (intro conjI impI)
  show "tasks (toggleTask i (toggleTask i st)) = tasks st"
    by (simp add: toggleTask_def o_def map_idI)
  show "length (tasks (toggleTask i st)) = length (tasks st)"
    by (simp add: toggleTask_def)
  show "map taskId (tasks (toggleTask i st)) = map taskId (tasks st)"
    by (simp add: toggleTask_def o_def)
  show "map taskText (tasks (toggleTask i st)) = map taskText (tasks st)"
    by (simp add: toggleTask_def o_def)
  show "tasks (toggleTask i st) = tasks st" if "i \<notin> taskId ` set (tasks st)"
    using that by (simp add: toggleTask_def map_absent)
qed

theorem toggleTask_twice_witness:
  "9 \<notin> taskId ` set (tasks demo) \<and> tasks (toggleTask 9 demo) = tasks demo
   \<and> map completed (tasks (toggleTask 2 demo)) = [False, False, False]
   \<and> tasks (toggleTask 2 (toggleTask 2 demo)) = tasks demo"
proof -
  have absent: "9 \<notin> taskId ` set (tasks demo)"
    by (simp add: demo_def)
  have once: "map completed (tasks (toggleTask 2 demo)) = [False, False, False]"
    by (simp add: demo_def toggleTask_def)
  note none = toggleTask_twice [of 9 demo, THEN conjunct2, THEN conjunct2, THEN conjunct2,
      THEN conjunct2, rule_format]
  note twice = toggleTask_twice [of 2 demo, THEN conjunct1]
  show ?thesis
    using absent once none [OF absent] twice by simp
qed

subsection \<open>Save and cancel\<close>

text \<open>
  Claim C9. After \<^verbatim>\<open>setEditing(id)\<close>, saving an empty or blank field gives the very
  state that cancelling gives: the cursor is unset, and the list and the store are as
  before the edit began.
\<close>

theorem blank_save_is_cancel:
  assumes "\<forall>c \<in> set v. is_space c"
  shows "handleSave i v (setEditing i st) = cancelEditing (setEditing i st)
         \<and> editingId (handleSave i v (setEditing i st)) = None
         \<and> tasks (handleSave i v (setEditing i st)) = tasks st
         \<and> storage (handleSave i v (setEditing i st)) = storage st"
  using trim_blank [OF assms]
  by (simp add: handleSave_def cancelEditing_def setEditing_def)

theorem blank_save_is_cancel_witness:
  "run_events [BeginEdit 1, SaveEdit 1 ''''] demo = run_events [BeginEdit 1, CancelEdit] demo
   \<and> handleSave 1 ''  '' (setEditing 1 demo) = cancelEditing (setEditing 1 demo)
   \<and> tasks (handleSave 1 ''  '' (setEditing 1 demo)) = tasks demo"
proof -
  have "\<forall>c \<in> set ''''. is_space c" by simp
  moreover have "\<forall>c \<in> set ''  ''. is_space c" by (simp add: is_space_def)
  ultimately show ?thesis
    using blank_save_is_cancel [of "''''" 1 demo] blank_save_is_cancel [of "''  ''" 1 demo]
    by (simp add: cancelEditing_def setEditing_def)
qed

subsection \<open>Frame conditions\<close>

text \<open>
  Claim C10. \<^verbatim>\<open>toggleTask(id)\<close> and \<^verbatim>\<open>updateTaskText(id, newText)\<close> keep the length of the
  list; at every position a task with another id is unchanged, and a task with the id
  changes in one field only: \<^verbatim>\<open>completed\<close> is negated, or \<^verbatim>\<open>text\<close> becomes the new text.
  So does \<^verbatim>\<open>handleSave\<close>, which calls \<^verbatim>\<open>updateTaskText\<close> or leaves the list alone.
\<close>

theorem toggle_update_frame:
  "length (tasks (toggleTask i st)) = length (tasks st)
   \<and> length (tasks (updateTaskText i newText st)) = length (tasks st)
   \<and> length (tasks (handleSave i v st)) = length (tasks st)
   \<and> (\<forall>k < length (tasks st).
        tasks (toggleTask i st) ! k =
          (if taskId (tasks st ! k) = i
           then \<lparr>taskId = taskId (tasks st ! k), taskText = taskText (tasks st ! k),
                 completed = \<not> completed (tasks st ! k)\<rparr>
           else tasks st ! k)
        \<and> tasks (updateTaskText i newText st) ! k =
          (if taskId (tasks st ! k) = i
           then \<lparr>taskId = taskId (tasks st ! k), taskText = newText,
                 completed = completed (tasks st ! k)\<rparr>
           else tasks st ! k)
        \<and> taskId (tasks (handleSave i v st) ! k) = taskId (tasks st ! k)
        \<and> completed (tasks (handleSave i v st) ! k) = completed (tasks st ! k)
        \<and> (taskId (tasks st ! k) \<noteq> i \<longrightarrow> tasks (handleSave i v st) ! k = tasks st ! k))"
  by (simp add: toggleTask_def updateTaskText_def handleSave_def cancelEditing_def Let_def)

theorem toggle_update_frame_witness:
  "(1::nat) < length (tasks demo)
   \<and> tasks (toggleTask 2 demo) ! 1 = \<lparr>taskId = 2, taskText = ''B'', completed = False\<rparr>
   \<and> tasks (updateTaskText 2 ''B2'' demo) ! 1 = \<lparr>taskId = 2, taskText = ''B2'', completed = True\<rparr>
   \<and> tasks (handleSave 2 ''B2'' demo) ! 0 = tasks demo ! 0"
proof -
  have len: "(1::nat) < length (tasks demo)" "(0::nat) < length (tasks demo)"
    by (simp_all add: demo_def)
  note at = toggle_update_frame [of 2 demo "''B2''" "''B2''", THEN conjunct2, THEN conjunct2,
      THEN conjunct2, rule_format]
  have t1: "tasks demo ! 1 = \<lparr>taskId = 2, taskText = ''B'', completed = True\<rparr>"
    and t0: "taskId (tasks demo ! 0) \<noteq> 2"
    by (simp_all add: demo_def)
  show ?thesis
    using len at [OF len(1)] at [OF len(2)] t1 t0 by simp
qed

subsection \<open>What was saved is read back\<close>

paragraph \<open>Decimal numerals are read back\<close>

lemma digit_char_code:
  assumes "d < 10"
  shows "of_char (digit_char d) = (48 + d :: nat)"
proof -
  from assms consider "d = 0" | "d = 1" | "d = 2" | "d = 3" | "d = 4" | "d = 5" | "d = 6"
    | "d = 7" | "d = 8" | "d = 9"
    by atomize_elim arith
  then show ?thesis
    by cases (simp_all add: digit_char_def)
qed

lemma is_digit_digit_char: "d < 10 \<Longrightarrow> is_digit (digit_char d)"
  by (simp add: is_digit_def digit_char_code)

lemma digit_val_digit_char: "d < 10 \<Longrightarrow> digit_val (digit_char d) = d"
  by (simp add: digit_val_def digit_char_code)

lemma show_nat_digits: "\<forall>c \<in> set (show_nat n). is_digit c"
proof (induction n rule: show_nat.induct)
  case (1 n)
  show ?case
  proof (cases "n < 10")
    case True
    then show ?thesis
      by (simp add: show_nat.simps [of n] is_digit_digit_char)
  next
    case False
    with 1 show ?thesis
      by (simp add: show_nat.simps [of n] is_digit_digit_char)
  qed
qed

lemma show_nat_nonempty: "show_nat n \<noteq> []"
  by (simp add: show_nat.simps [of n])

lemma nat_of_digits_snoc: "nat_of_digits (ds @ [c]) = 10 * nat_of_digits ds + digit_val c"
  by (simp add: nat_of_digits_def)

lemma nat_of_digits_show_nat: "nat_of_digits (show_nat n) = n"
proof (induction n rule: show_nat.induct)
  case (1 n)
  show ?case
  proof (cases "n < 10")
    case True
    then show ?thesis
      by (simp add: show_nat.simps [of n] nat_of_digits_def digit_val_digit_char)
  next
    case False
    with 1 have "nat_of_digits (show_nat (n div 10)) = n div 10"
      by simp
    with False show ?thesis
      by (simp add: show_nat.simps [of n] nat_of_digits_snoc digit_val_digit_char)
  qed
qed

lemma hd_show_nat: "0 < n \<Longrightarrow> hd (show_nat n) \<noteq> CHR ''0''"
proof (induction n rule: show_nat.induct)
  case (1 n)
  show ?case
  proof (cases "n < 10")
    case True
    then have "of_char (digit_char n) = (48 + n :: nat)"
      by (rule digit_char_code)
    with 1(2) have "digit_char n \<noteq> CHR ''0''"
      by auto
    with True show ?thesis
      by (simp add: show_nat.simps [of n])
  next
    case False
    then have "0 < n div 10" by simp
    with 1 False have "hd (show_nat (n div 10)) \<noteq> CHR ''0''"
      by simp
    with False show ?thesis
      by (simp add: show_nat.simps [of n] show_nat_nonempty)
  qed
qed

lemma no_leading_zero: "1 < length (show_nat n) \<Longrightarrow> hd (show_nat n) \<noteq> CHR ''0''"
proof -
  assume len: "1 < length (show_nat n)"
  have "0 < n"
  proof (rule ccontr)
    assume "\<not> 0 < n"
    then have "show_nat n = [digit_char 0]"
      by (simp add: show_nat.simps [of 0])
    with len show False by simp
  qed
  then show ?thesis by (rule hd_show_nat)
qed

lemma hd_show_nat_digit: "is_digit (hd (show_nat n))"
  using show_nat_digits [of n] show_nat_nonempty [of n] by (cases "show_nat n") auto

lemma takeWhile_all: "\<forall>c \<in> set xs. P c \<Longrightarrow> takeWhile P xs = xs"
  by (induction xs) auto

lemma dropWhile_all: "\<forall>c \<in> set xs. P c \<Longrightarrow> dropWhile P xs = []"
  by (induction xs) auto

lemma number_of_show_nat:
  assumes "int n \<le> max_safe_integer"
  shows "number_of (show_nat n) = Some (JInt (int n))"
proof -
  have d: "\<forall>c \<in> set (show_nat n). is_digit c" by (rule show_nat_digits)
  have "hd (show_nat n) \<noteq> CHR ''-''"
    using hd_show_nat_digit [of n] by (auto simp: is_digit_def)
  with assms show ?thesis
    using no_leading_zero [of n]
    by (auto simp: number_of_def Let_def takeWhile_all [OF d] dropWhile_all [OF d]
          show_nat_nonempty nat_of_digits_show_nat)
qed

lemma number_of_minus_show_nat:
  assumes "int n \<le> max_safe_integer"
  shows "number_of (CHR ''-'' # show_nat n) = Some (JInt (- int n))"
proof -
  have d: "\<forall>c \<in> set (show_nat n). is_digit c" by (rule show_nat_digits)
  from assms show ?thesis
    using no_leading_zero [of n]
    by (auto simp: number_of_def Let_def takeWhile_all [OF d] dropWhile_all [OF d]
          show_nat_nonempty nat_of_digits_show_nat)
qed

lemma number_of_show_int:
  assumes "\<bar>i\<bar> \<le> max_safe_integer"
  shows "number_of (show_int i) = Some (JInt i)"
proof (cases "i < 0")
  case True
  with assms have "int (nat (- i)) \<le> max_safe_integer" by simp
  from number_of_minus_show_nat [OF this] True show ?thesis
    by (simp add: show_int_def)
next
  case False
  with assms have "int (nat i) \<le> max_safe_integer" by simp
  from number_of_show_nat [OF this] False show ?thesis
    by (simp add: show_int_def)
qed

paragraph \<open>Strings are read back\<close>

lemma hex_char_read:
  assumes "d < 16"
  shows "is_hex (hex_char d) \<and> hex_val (hex_char d) = d"
proof -
  from assms consider "d = 0" | "d = 1" | "d = 2" | "d = 3" | "d = 4" | "d = 5" | "d = 6"
    | "d = 7" | "d = 8" | "d = 9" | "d = 10" | "d = 11" | "d = 12" | "d = 13" | "d = 14"
    | "d = 15"
    by atomize_elim arith
  then show ?thesis
    by cases (simp_all add: hex_char_def is_hex_def hex_val_def is_digit_def)
qed

lemma scan_low_unit:
  assumes "d1 < 16" and "d0 < 16"
  shows "scan_string (backslash # CHR ''u'' # CHR ''0'' # CHR ''0'' # hex_char d1 # hex_char d0 # X)
         = prepend (16 * d1 + d0) (scan_string X)"
  using hex_char_read [OF assms(1)] hex_char_read [OF assms(2)]
  by (simp add: backslash_def dquote_def is_hex_def hex_val_def is_digit_def)

lemma scan_escape_char:
  "scan_string (escape_char c @ X) = prepend (of_char c) (scan_string X)"
proof -
  consider (named) "c = dquote \<or> c = backslash \<or> c = CHR 0x08 \<or> c = CHR 0x09 \<or> c = CHR 0x0A
                    \<or> c = CHR 0x0C \<or> c = CHR 0x0D"
    | (low) "\<not> (c = dquote \<or> c = backslash \<or> c = CHR 0x08 \<or> c = CHR 0x09 \<or> c = CHR 0x0A
                \<or> c = CHR 0x0C \<or> c = CHR 0x0D)" "(of_char c :: nat) < 32"
    | (plain) "\<not> (c = dquote \<or> c = backslash \<or> c = CHR 0x08 \<or> c = CHR 0x09 \<or> c = CHR 0x0A
                \<or> c = CHR 0x0C \<or> c = CHR 0x0D)" "\<not> (of_char c :: nat) < 32"
    by blast
  then show ?thesis
  proof cases
    case named
    then show ?thesis
      by (auto simp: escape_char_def unescape_def dquote_def backslash_def)
  next
    case low
    have "(of_char c :: nat) div 16 < 16" "(of_char c :: nat) mod 16 < 16"
      using low(2) by simp_all
    from scan_low_unit [OF this, of X] low show ?thesis
      by (simp add: escape_char_def)
  next
    case plain
    then show ?thesis
      by (simp add: escape_char_def)
  qed
qed

lemma scan_string_escaped:
  "scan_string (concat (map escape_char s) @ dquote # rest) = Some (units_of s, rest)"
proof (induction s)
  case Nil
  show ?case by (simp add: units_of_def)
next
  case (Cons c s)
  have "scan_string (concat (map escape_char (c # s)) @ dquote # rest)
        = scan_string (escape_char c @ (concat (map escape_char s) @ dquote # rest))"
    by simp
  also have "\<dots> = prepend (of_char c) (scan_string (concat (map escape_char s) @ dquote # rest))"
    by (rule scan_escape_char)
  also have "\<dots> = Some (units_of (c # s), rest)"
    by (simp add: Cons.IH prepend_def units_of_def)
  finally show ?case .
qed

paragraph \<open>The tokens of what \<^verbatim>\<open>JSON.stringify\<close> wrote\<close>

lemma tokens_quote: "json_tokens (quote s @ rest) = emit (TScalar (JStr (units_of s))) (json_tokens rest)"
proof -
  have "json_tokens (quote s @ rest) = json_tokens (dquote # (concat (map escape_char s) @ dquote # rest))"
    by (simp add: quote_def)
  also have "\<dots> = emit (TScalar (JStr (units_of s))) (json_tokens rest)"
    by (simp add: scan_string_escaped) (simp add: dquote_def is_json_ws_def)
  finally show ?thesis .
qed

lemma takeWhile_stop:
  "\<forall>c \<in> set xs. P c \<Longrightarrow> rest = [] \<or> \<not> P (hd rest) \<Longrightarrow> takeWhile P (xs @ rest) = xs"
proof (induction xs)
  case Nil
  then show ?case by (cases rest) auto
next
  case (Cons x xs)
  then show ?case by simp
qed

lemma dropWhile_stop:
  "\<forall>c \<in> set xs. P c \<Longrightarrow> rest = [] \<or> \<not> P (hd rest) \<Longrightarrow> dropWhile P (xs @ rest) = rest"
proof (induction xs)
  case Nil
  then show ?case by (cases rest) auto
next
  case (Cons x xs)
  then show ?case by simp
qed

lemma tokens_number_start:
  assumes "c = CHR ''-'' \<or> is_digit c"
  shows "json_tokens (c # cs) =
           (case number_of (c # takeWhile is_numchar cs) of
              None \<Rightarrow> None
            | Some v \<Rightarrow> emit (TScalar v) (json_tokens (dropWhile is_numchar cs)))"
proof -
  have "\<not> is_json_ws c \<and> c \<noteq> CHR ''['' \<and> c \<noteq> CHR '']'' \<and> c \<noteq> CHR ''{'' \<and> c \<noteq> CHR ''}''
        \<and> c \<noteq> CHR '','' \<and> c \<noteq> CHR '':'' \<and> c \<noteq> dquote"
    using assms by (auto simp: is_digit_def is_json_ws_def dquote_def)
  with assms show ?thesis
    by (simp only: json_tokens.simps(2) if_False if_True)
qed

lemma tokens_show_int:
  assumes safe: "\<bar>i\<bar> \<le> max_safe_integer" and stop: "rest = [] \<or> \<not> is_numchar (hd rest)"
  shows "json_tokens (show_int i @ rest) = emit (TScalar (JInt i)) (json_tokens rest)"
proof -
  have digits: "\<forall>c \<in> set (show_nat n). is_numchar c" for n
    using show_nat_digits [of n] by (simp add: is_numchar_def)
  obtain c cs where split: "show_int i = c # cs"
    and start: "c = CHR ''-'' \<or> is_digit c" and tail: "\<forall>x \<in> set cs. is_numchar x"
  proof (cases "i < 0")
    case True
    then have "show_int i = CHR ''-'' # show_nat (nat (- i))"
      by (simp add: show_int_def)
    with digits that show ?thesis by blast
  next
    case False
    obtain d ds where "show_nat (nat i) = d # ds"
      using show_nat_nonempty [of "nat i"] by (cases "show_nat (nat i)") auto
    moreover from this have "is_digit d"
      using hd_show_nat_digit [of "nat i"] by simp
    moreover have "\<forall>x \<in> set ds. is_numchar x"
      using digits [of "nat i"] \<open>show_nat (nat i) = d # ds\<close> by simp
    ultimately show ?thesis
      using that False by (simp add: show_int_def)
  qed
  have "json_tokens (show_int i @ rest) = json_tokens (c # (cs @ rest))"
    by (simp add: split)
  also have "\<dots> = emit (TScalar (JInt i)) (json_tokens rest)"
    using number_of_show_int [OF safe]
    by (simp only: tokens_number_start [OF start] takeWhile_stop [OF tail stop]
          dropWhile_stop [OF tail stop] flip: split) simp
  finally show ?thesis .
qed

lemma tokens_true:
  "json_tokens (''true}'' @ rest) = emit (TScalar (JBool True)) (emit TCloseObj (json_tokens rest))"
  by (simp add: is_json_ws_def is_digit_def is_lower_def literal_of_def dquote_def)

lemma tokens_false:
  "json_tokens (''false}'' @ rest) = emit (TScalar (JBool False)) (emit TCloseObj (json_tokens rest))"
  by (simp add: is_json_ws_def is_digit_def is_lower_def literal_of_def dquote_def)

lemma tokens_open_obj: "json_tokens (CHR ''{'' # cs) = emit TOpenObj (json_tokens cs)"
  by (simp add: is_json_ws_def)

lemma tokens_colon: "json_tokens (CHR '':'' # cs) = emit TColon (json_tokens cs)"
  by (simp add: is_json_ws_def)

lemma tokens_comma: "json_tokens (CHR '','' # cs) = emit TComma (json_tokens cs)"
  by (simp add: is_json_ws_def)

lemma tokens_open_arr: "json_tokens (CHR ''['' # cs) = emit TOpenArr (json_tokens cs)"
  by (simp add: is_json_ws_def)

lemma tokens_close_arr: "json_tokens (CHR '']'' # cs) = emit TCloseArr (json_tokens cs)"
  by (simp add: is_json_ws_def)

lemma tokens_task:
  assumes "\<bar>taskId t\<bar> \<le> max_safe_integer"
  shows "json_tokens (stringify_task t @ rest) =
           (case json_tokens rest of None \<Rightarrow> None | Some ts \<Rightarrow> Some (task_tokens t @ ts))"
proof -
  have stop: "\<not> is_numchar (CHR '','')"
    by (simp add: is_numchar_def is_digit_def)
  have num: "json_tokens (show_int (taskId t) @ CHR '','' # X)
             = emit (TScalar (JInt (taskId t))) (emit TComma (json_tokens X))" for X
    using tokens_show_int [OF assms, of "CHR '','' # X"] stop
    by (simp add: tokens_comma del: json_tokens.simps)
  have lit: "json_tokens ((if completed t then ''true'' else ''false'') @ CHR ''}'' # rest)
             = emit (TScalar (JBool (completed t))) (emit TCloseObj (json_tokens rest))"
    using tokens_true [of rest] tokens_false [of rest] by (simp del: json_tokens.simps)
  have "json_tokens (stringify_task t @ rest) =
        emit TOpenObj (emit (TScalar (JStr (units_of ''id''))) (emit TColon
          (emit (TScalar (JInt (taskId t))) (emit TComma
          (emit (TScalar (JStr (units_of ''text''))) (emit TColon
          (emit (TScalar (JStr (units_of (taskText t)))) (emit TComma
          (emit (TScalar (JStr (units_of ''completed''))) (emit TColon
          (emit (TScalar (JBool (completed t))) (emit TCloseObj (json_tokens rest)))))))))))))"
    unfolding stringify_task_def
    by (simp only: append_assoc append_Cons append_Nil tokens_open_obj tokens_quote tokens_colon
          tokens_comma num lit)
  then show ?thesis
    by (simp add: emit_def task_tokens_def split: option.splits)
qed

lemma tokens_elems:
  assumes "safe_ids ts"
  shows "json_tokens (join_commas (map stringify_task ts) @ CHR '']'' # rest) =
           (case json_tokens rest of
              None \<Rightarrow> None
            | Some r \<Rightarrow> Some (elems_tokens ts @ TCloseArr # r))"
  using assms
proof (induction ts rule: elems_tokens.induct)
  case 1
  show ?case
    by (simp add: tokens_close_arr emit_def del: json_tokens.simps split: option.splits)
next
  case (2 t)
  then have "\<bar>taskId t\<bar> \<le> max_safe_integer"
    by (simp add: safe_ids_def)
  from tokens_task [OF this] show ?case
    by (simp add: tokens_close_arr emit_def del: json_tokens.simps split: option.splits)
next
  case (3 t u us)
  then have safe: "\<bar>taskId t\<bar> \<le> max_safe_integer" and rest: "safe_ids (u # us)"
    by (simp_all add: safe_ids_def)
  from tokens_task [OF safe] "3.IH" [OF rest] show ?case
    by (simp add: tokens_comma emit_def del: json_tokens.simps split: option.splits)
qed

lemma run_task:
  assumes "e = Value \<or> e = ValueOrClose"
  shows "run e (FArr es # st) (task_tokens t @ ts) =
           run CommaOrClose (FArr (es @ [task_json t]) # st) ts"
  using assms by (auto simp: task_tokens_def task_json_def)

lemma run_elems:
  assumes "ts \<noteq> []" and "e = Value \<or> e = ValueOrClose"
  shows "run e (FArr es # st) (elems_tokens ts @ rest) =
           run CommaOrClose (FArr (es @ map task_json ts) # st) rest"
  using assms
proof (induction ts arbitrary: e es rule: elems_tokens.induct)
  case 1
  then show ?case by simp
next
  case (2 t)
  then show ?case by (simp add: run_task)
next
  case (3 t u us)
  have "run e (FArr es # st) (elems_tokens (t # u # us) @ rest) =
        run e (FArr es # st) (task_tokens t @ (TComma # elems_tokens (u # us) @ rest))"
    by simp
  also have "\<dots> = run CommaOrClose (FArr (es @ [task_json t]) # st)
                     (TComma # elems_tokens (u # us) @ rest)"
    using "3.prems"(2) by (rule run_task)
  also have "\<dots> = run Value (FArr (es @ [task_json t]) # st) (elems_tokens (u # us) @ rest)"
    by simp
  also have "\<dots> = run CommaOrClose (FArr ((es @ [task_json t]) @ map task_json (u # us)) # st) rest"
    by (rule "3.IH") simp_all
  finally show ?case by simp
qed

lemma run_array:
  "run Value [] (TOpenArr # elems_tokens ts @ [TCloseArr]) = Some (JArr (map task_json ts))"
proof (cases "ts = []")
  case True
  then show ?thesis by simp
next
  case False
  have "run Value [] (TOpenArr # elems_tokens ts @ [TCloseArr]) =
        run ValueOrClose [FArr []] (elems_tokens ts @ [TCloseArr])"
    by simp
  also have "\<dots> = run CommaOrClose [FArr ([] @ map task_json ts)] [TCloseArr]"
    using False by (rule run_elems) simp
  also have "\<dots> = Some (JArr (map task_json ts))"
    by simp
  finally show ?thesis .
qed

lemma as_task_task_json: "as_task (task_json t) = Some t"
  by (simp add: task_json_def units_of_def list_all_iff o_def)

lemma as_tasks_task_json: "as_tasks (JArr (map task_json ts)) = Some ts"
  by (induction ts) (simp_all add: as_task_task_json)

lemma parse_stringify:
  assumes "safe_ids ts"
  shows "JSON_parse (JSON_stringify ts) = Inr (JArr (map task_json ts))"
proof -
  have "json_tokens (JSON_stringify ts) = Some (TOpenArr # elems_tokens ts @ [TCloseArr])"
    using tokens_elems [OF assms, of "[]"]
    by (simp add: JSON_stringify_def tokens_open_arr emit_def del: json_tokens.simps(2))
  then show ?thesis
    by (simp add: JSON_parse_def run_array del: run.simps)
qed

lemma stringify_nonempty: "JSON_stringify ts \<noteq> []"
  by (simp add: JSON_stringify_def)

lemma load_after_save:
  assumes "safe_ids ts" and "storage st = Some (JSON_stringify ts)"
  shows "loadTasks st = Loaded (st\<lparr>tasks := ts\<rparr>)"
  using assms(2) parse_stringify [OF assms(1)]
  by (simp add: loadTasks_def stringify_nonempty as_tasks_task_json del: as_tasks.simps)

lemmas json_simps =
  JSON_parse_def JSON_stringify_def stringify_task_def quote_def escape_char_def show_int_def
  show_nat.simps digit_char_def dquote_def backslash_def is_json_ws_def is_digit_def
  is_numchar_def is_lower_def literal_of_def number_of_def emit_def prepend_def unescape_def
  nat_of_digits_def digit_val_def max_safe_integer_def hex_char_def

text \<open>
  Claim C4, as the code has it. \<^verbatim>\<open>loadTasks\<close> returns with the list as it was when the
  item is absent or is the empty string, and with the saved list when the item is what
  \<^verbatim>\<open>saveTasks\<close> wrote for a list with safe integer ids. It has no handler around
  \<^verbatim>\<open>JSON.parse\<close>: when the stored text does not parse, the \<^verbatim>\<open>SyntaxError\<close> goes to the
  caller.
\<close>

theorem loadTasks_outcomes:
  "(storage st = None \<or> storage st = Some [] \<longrightarrow> loadTasks st = Loaded st)
   \<and> (safe_ids ts \<and> storage st = Some (JSON_stringify ts) \<longrightarrow> loadTasks st = Loaded (st\<lparr>tasks := ts\<rparr>))
   \<and> (storage st = Some s \<and> s \<noteq> [] \<and> JSON_parse s = Inl e \<longrightarrow> loadTasks st = Raised e)"
proof (intro conjI impI)
  show "loadTasks st = Loaded st" if "storage st = None \<or> storage st = Some []"
    using that by (auto simp: loadTasks_def)
  show "loadTasks st = Loaded (st\<lparr>tasks := ts\<rparr>)"
    if "safe_ids ts \<and> storage st = Some (JSON_stringify ts)"
    using that by (simp add: load_after_save)
  show "loadTasks st = Raised e" if "storage st = Some s \<and> s \<noteq> [] \<and> JSON_parse s = Inl e"
    using that by (simp add: loadTasks_def)
qed

theorem loadTasks_outcomes_witness:
  "loadTasks (initial None) = Loaded (initial None)
   \<and> safe_ids (tasks demo)
   \<and> loadTasks (saveTasks demo) = Loaded (saveTasks demo)
   \<and> JSON_parse ''[1,'' = Inl SyntaxError
   \<and> loadTasks (initial (Some ''[1,'')) = Raised SyntaxError"
proof -
  have absent: "storage (initial None) = None \<or> storage (initial None) = Some []"
    by (simp add: initial_def)
  have safe: "safe_ids (tasks demo)"
    by (simp add: demo_def safe_ids_def max_safe_integer_def)
  have saved: "storage (saveTasks demo) = Some (JSON_stringify (tasks demo))"
    by (simp add: saveTasks_def)
  have same: "(saveTasks demo)\<lparr>tasks := tasks demo\<rparr> = saveTasks demo"
    by (simp add: saveTasks_def)
  have bad: "JSON_parse ''[1,'' = Inl SyntaxError"
    by (simp add: json_simps)
  have stored: "storage (initial (Some ''[1,'')) = Some ''[1,'' \<and> ''[1,'' \<noteq> []
                \<and> JSON_parse ''[1,'' = Inl SyntaxError"
    using bad by (simp add: initial_def)
  note a = loadTasks_outcomes [of "initial None", THEN conjunct1, rule_format, OF absent]
  note b = loadTasks_outcomes [of "saveTasks demo" "tasks demo", THEN conjunct2, THEN conjunct1,
      rule_format, OF conjI [OF safe saved]]
  note c = loadTasks_outcomes [of "initial (Some ''[1,'')" _ "''[1,''" SyntaxError,
      THEN conjunct2, THEN conjunct2, rule_format, OF stored]
  show ?thesis
    using a b c safe bad same by simp
qed

text \<open>
  Claim C4 as stated fails: with text in the store that is not JSON, or with a saved list
  whose last character is missing, \<^verbatim>\<open>loadTasks\<close> throws.
\<close>

theorem loadTasks_raises:
  "loadTasks (initial (Some ''not json'')) = Raised SyntaxError
   \<and> loadTasks (initial (Some (butlast (JSON_stringify
        [\<lparr>taskId = 1, taskText = ''A'', completed = False\<rparr>])))) = Raised SyntaxError"
  by (simp add: loadTasks_def initial_def json_simps)

text \<open>
  Claim C7. From the empty list, submitting \<open>Buy milk\<close> and letting the add callback run
  at a clock reading that is a safe integer leaves one task in the list and its
  serialisation in the store; \<^verbatim>\<open>loadTasks\<close> in a fresh page over that store returns
  normally with exactly that task: text \<open>Buy milk\<close>, not completed.
\<close>

theorem buy_milk_round_trip:
  assumes "\<bar>now\<bar> \<le> max_safe_integer"
  shows "tasks (run_events [Submit ''Buy milk'', Timeout now] (initial stored))
           = [\<lparr>taskId = now, taskText = ''Buy milk'', completed = False\<rparr>]
         \<and> loadTasks (initial (storage (run_events [Submit ''Buy milk'', Timeout now] (initial stored))))
           = Loaded ((initial (storage (run_events [Submit ''Buy milk'', Timeout now] (initial stored))))
               \<lparr>tasks := [\<lparr>taskId = now, taskText = ''Buy milk'', completed = False\<rparr>]\<rparr>)"
proof -
  let ?t = "\<lparr>taskId = now, taskText = ''Buy milk'', completed = False\<rparr>"
  let ?st = "run_events [Submit ''Buy milk'', Timeout now] (initial stored)"
  have trimmed: "trim ''Buy milk'' = ''Buy milk''"
    by (simp add: trim_def is_space_def)
  have list: "tasks ?st = [?t]"
    by (simp add: trimmed initial_def submitHandler_def addTimeout_def addTask_def Let_def)
  have store: "storage ?st = Some (JSON_stringify [?t])"
    by (simp add: trimmed initial_def submitHandler_def addTimeout_def addTask_def saveTasks_def
          Let_def)
  have safe: "safe_ids [?t]"
    using assms by (simp add: safe_ids_def)
  have "storage (initial (storage ?st)) = Some (JSON_stringify [?t])"
    using store by (simp add: initial_def)
  from load_after_save [OF safe this] list show ?thesis
    by simp
qed

theorem buy_milk_round_trip_witness:
  "\<bar>1730000000000\<bar> \<le> max_safe_integer
   \<and> storage (run_events [Submit ''Buy milk'', Timeout 1730000000000] (initial None))
       = Some (JSON_stringify [\<lparr>taskId = 1730000000000, taskText = ''Buy milk'', completed = False\<rparr>])
   \<and> loadTasks (initial (storage (run_events [Submit ''Buy milk'', Timeout 1730000000000] (initial None))))
       = Loaded \<lparr>tasks = [\<lparr>taskId = 1730000000000, taskText = ''Buy milk'', completed = False\<rparr>],
                editingId = None,
                storage = Some (JSON_stringify
                  [\<lparr>taskId = 1730000000000, taskText = ''Buy milk'', completed = False\<rparr>]),
                addDisabled = False, pendingAdds = []\<rparr>"
proof -
  have safe: "\<bar>1730000000000\<bar> \<le> max_safe_integer"
    by (simp add: max_safe_integer_def)
  have store: "storage (run_events [Submit ''Buy milk'', Timeout 1730000000000] (initial None))
       = Some (JSON_stringify [\<lparr>taskId = 1730000000000, taskText = ''Buy milk'', completed = False\<rparr>])"
    by (simp add: trim_def is_space_def initial_def submitHandler_def addTimeout_def addTask_def
          saveTasks_def Let_def)
  from buy_milk_round_trip [OF safe, of None] safe store show ?thesis
    by (simp add: initial_def)
qed

lemma stored_text:
  \<open>JSON_stringify [\<lparr>taskId = 1730000000000, taskText = ''Buy milk'', completed = False\<rparr>]
     = ''[{"id":1730000000000,"text":"Buy milk","completed":false}]''\<close>
  by (simp add: json_simps)

end
